theory Spec2Isabelle
  imports Main
begin

section \<open>Python values, exceptions and indexing\<close>

text \<open>
  The embedding follows \<^verbatim>\<open>commitlint.py\<close>. The seven rule functions are dynamically
  typed: \<^verbatim>\<open>main\<close> hands them either the string returned by \<^verbatim>\<open>commit_msg\<close> or the
  function object \<^verbatim>\<open>commit_msg\<close> itself, so their argument is a Python value. Two of
  them fall off their end and return \<^verbatim>\<open>None\<close>, so their result is a Python value too.
\<close>

datatype pyerror = IndexError | AttributeError | CalledProcessError

datatype pyval = PyStr string | PyBool bool | PyNone | PyFunction

text \<open>The truth value that \<^verbatim>\<open>if check(...):\<close> tests.\<close>

fun truthy :: "pyval \<Rightarrow> bool" where
  "truthy (PyStr s) = (s \<noteq> [])"
| "truthy (PyBool b) = b"
| "truthy PyNone = False"
| "truthy PyFunction = True"

text \<open>
  \<^verbatim>\<open>xs[i]\<close> on a list or a string: a negative index counts from the end, and an index
  outside the sequence raises \<^verbatim>\<open>IndexError\<close>.
\<close>

definition getitem :: "'a list \<Rightarrow> int \<Rightarrow> pyerror + 'a" where
  "getitem xs i =
     (let k = (if i < 0 then i + int (length xs) else i)
      in if 0 \<le> k \<and> k < int (length xs) then Inr (xs ! nat k) else Inl IndexError)"

text \<open>
  Looking up a method of \<^verbatim>\<open>str\<close> (\<^verbatim>\<open>split\<close>, \<^verbatim>\<open>splitlines\<close>) on a value: only a string has
  it; on a function object, \<^verbatim>\<open>None\<close> or a bool the lookup raises \<^verbatim>\<open>AttributeError\<close>.
\<close>

definition str_method :: "pyval \<Rightarrow> pyerror + string" where
  "str_method v = (case v of PyStr s \<Rightarrow> Inr s | _ \<Rightarrow> Inl AttributeError)"

section \<open>The methods of str that the rules use\<close>

text \<open>
  A \<^typ>\<open>char\<close> is one code point in the range U+0000 to U+00FF; the character classes
  below are Python's on that range (there is no titlecase character in it). Messages
  with code points beyond U+00FF are outside the model.
\<close>

definition isspace_chr :: "char \<Rightarrow> bool" where
  "isspace_chr c =
     (let n = (of_char c :: nat)
      in (9 \<le> n \<and> n \<le> 13) \<or> (28 \<le> n \<and> n \<le> 32) \<or> n = 133 \<or> n = 160)"

definition is_linebreak :: "char \<Rightarrow> bool" where
  "is_linebreak c =
     (let n = (of_char c :: nat)
      in (10 \<le> n \<and> n \<le> 13) \<or> (28 \<le> n \<and> n \<le> 30) \<or> n = 133)"

definition isupper_chr :: "char \<Rightarrow> bool" where
  "isupper_chr c =
     (let n = (of_char c :: nat)
      in (65 \<le> n \<and> n \<le> 90) \<or> (192 \<le> n \<and> n \<le> 214) \<or> (216 \<le> n \<and> n \<le> 222))"

definition islower_chr :: "char \<Rightarrow> bool" where
  "islower_chr c =
     (let n = (of_char c :: nat)
      in (97 \<le> n \<and> n \<le> 122) \<or> n = 170 \<or> n = 181 \<or> n = 186
         \<or> (223 \<le> n \<and> n \<le> 246) \<or> (248 \<le> n \<and> n \<le> 255))"

definition isalpha_chr :: "char \<Rightarrow> bool" where
  "isalpha_chr c =
     (let n = (of_char c :: nat)
      in (65 \<le> n \<and> n \<le> 90) \<or> (97 \<le> n \<and> n \<le> 122) \<or> n = 170 \<or> n = 181 \<or> n = 186
         \<or> (192 \<le> n \<and> n \<le> 214) \<or> (216 \<le> n \<and> n \<le> 246) \<or> (248 \<le> n \<and> n \<le> 255))"

text \<open>
  \<^verbatim>\<open>s.split()\<close>: skip whitespace, then take the run of non-whitespace characters as the
  next token, until the text ends. No token is empty.
\<close>

function str_split :: "string \<Rightarrow> string list" where
  "str_split s =
     (case dropWhile isspace_chr s of
        [] \<Rightarrow> []
      | c # r \<Rightarrow> (c # takeWhile (\<lambda>x. \<not> isspace_chr x) r)
                 # str_split (dropWhile (\<lambda>x. \<not> isspace_chr x) r))"
  by pat_completeness auto
termination
proof (relation "measure length")
  show "wf (measure (length :: string \<Rightarrow> nat))" by simp
next
  fix s :: string and c r
  assume d: "dropWhile isspace_chr s = c # r"
  have "length (dropWhile (\<lambda>x. \<not> isspace_chr x) r) \<le> length r"
    by (rule length_dropWhile_le)
  moreover have "length (c # r) \<le> length s"
    using length_dropWhile_le [of isspace_chr s] d by simp
  ultimately show "(dropWhile (\<lambda>x. \<not> isspace_chr x) r, s) \<in> measure length"
    by simp
qed

declare str_split.simps [simp del]

text \<open>
  \<^verbatim>\<open>s.splitlines()\<close>: a line runs up to the next line break, which is dropped; carriage
  return followed by line feed is one break; text that ends in a break has no empty last
  line, and the empty text has no line.
\<close>

function str_splitlines :: "string \<Rightarrow> string list" where
  "str_splitlines [] = []"
| "str_splitlines (a # s) =
     (case dropWhile (\<lambda>x. \<not> is_linebreak x) (a # s) of
        [] \<Rightarrow> [a # s]
      | c # r \<Rightarrow> takeWhile (\<lambda>x. \<not> is_linebreak x) (a # s)
                 # str_splitlines
                     (if c = CHR 0x0D \<and> r \<noteq> [] \<and> hd r = CHR 0x0A then tl r else r))"
  by pat_completeness auto
termination
proof (relation "measure length")
  show "wf (measure (length :: string \<Rightarrow> nat))" by simp
next
  fix a :: char and s c r
  assume d: "dropWhile (\<lambda>x. \<not> is_linebreak x) (a # s) = c # r"
  have "length (c # r) \<le> length (a # s)"
    using length_dropWhile_le [of "\<lambda>x. \<not> is_linebreak x" "a # s"] d by simp
  moreover have "length (if c = CHR 0x0D \<and> r \<noteq> [] \<and> hd r = CHR 0x0A then tl r else r) \<le> length r"
    by simp
  ultimately have
    "length (if c = CHR 0x0D \<and> r \<noteq> [] \<and> hd r = CHR 0x0A then tl r else r) < length (a # s)"
    by (simp del: if_split)
  then show
    "(if c = CHR 0x0D \<and> r \<noteq> [] \<and> hd r = CHR 0x0A then tl r else r, a # s) \<in> measure length"
    by (simp del: if_split)
qed

text \<open>\<^verbatim>\<open>s.strip()\<close>: whitespace removed at both ends.\<close>

definition str_strip :: "string \<Rightarrow> string" where
  "str_strip s = rev (dropWhile isspace_chr (rev (dropWhile isspace_chr s)))"

text \<open>
  \<^verbatim>\<open>s.split(sep)\<close> for a separator of one character: the pieces between the occurrences
  of the separator; a text without the separator is the only piece.
\<close>

function str_split_sep :: "char \<Rightarrow> string \<Rightarrow> string list" where
  "str_split_sep sep s =
     (case dropWhile (\<lambda>x. x \<noteq> sep) s of
        [] \<Rightarrow> [s]
      | c # r \<Rightarrow> takeWhile (\<lambda>x. x \<noteq> sep) s # str_split_sep sep r)"
  by pat_completeness auto
termination
proof (relation "measure (\<lambda>(sep, s). length s)")
  show "wf (measure (\<lambda>(sep :: char, s :: string). length s))" by simp
next
  fix sep :: char and s c r
  assume d: "dropWhile (\<lambda>x. x \<noteq> sep) s = c # r"
  have "length (c # r) \<le> length s"
    using length_dropWhile_le [of "\<lambda>x. x \<noteq> sep" s] d by simp
  then show "((sep, r), (sep, s)) \<in> measure (\<lambda>(sep, s). length s)"
    by simp
qed

declare str_split_sep.simps [simp del]

text \<open>\<^verbatim>\<open>s.startswith(p)\<close>, and \<^verbatim>\<open>s.startswith(tuple)\<close>: some member of the tuple is a prefix.\<close>

definition str_startswith :: "string \<Rightarrow> string \<Rightarrow> bool" where
  "str_startswith s p = (take (length p) s = p)"

definition startswith_any :: "string \<Rightarrow> string list \<Rightarrow> bool" where
  "startswith_any s ps = list_ex (str_startswith s) ps"

text \<open>
  \<^verbatim>\<open>s.islower()\<close>: the scan stops with False at an uppercase character, remembers whether it
  met a lowercase one, and answers that at the end.
\<close>

fun islower_loop :: "bool \<Rightarrow> string \<Rightarrow> bool" where
  "islower_loop cased [] = cased"
| "islower_loop cased (c # s) =
     (if isupper_chr c then False else islower_loop (cased \<or> islower_chr c) s)"

definition str_islower :: "string \<Rightarrow> bool" where
  "str_islower s = islower_loop False s"

section \<open>The message source\<close>

text \<open>
  What the two \<^verbatim>\<open>git\<close> calls answer for a path: whether \<^verbatim>\<open>git -C path status\<close> exits with
  0, and the standard output of \<^verbatim>\<open>git -C path log -1 --pretty=%B\<close>.
\<close>

record git =
  status_ok :: "string \<Rightarrow> bool"
  log_stdout :: "string \<Rightarrow> string"

text \<open>
  \<^verbatim>\<open>commit_msg(path=".")\<close>: \<^verbatim>\<open>check=True\<close> raises when the status call fails; the object that
  \<^verbatim>\<open>subprocess.run\<close> returns is always true, so the final \<^verbatim>\<open>return None\<close> is never reached.
  An omitted argument is \<open>None\<close> here.
\<close>

definition commit_msg :: "git \<Rightarrow> string option \<Rightarrow> pyerror + pyval" where
  "commit_msg g path_arg =
     (let path = (case path_arg of None \<Rightarrow> ''.'' | Some p \<Rightarrow> p)
      in if status_ok g path then Inr (PyStr (log_stdout g path)) else Inl CalledProcessError)"

section \<open>The seven rules\<close>

text \<open>
  Each rule prints its diagnostic and returns; the printed text influences nothing and is
  left out.
\<close>

definition conventional_commit_type :: "string list" where
  "conventional_commit_type =
     [''build:'', ''chore:'', ''ci:'', ''docs:'', ''feat:'', ''fix:'',
      ''perf:'', ''refactor:'', ''revert:'', ''style:'', ''test:'']"

definition header_type :: "pyval \<Rightarrow> pyerror + pyval" where
  "header_type commit_message =
     (case str_method commit_message of Inl e \<Rightarrow> Inl e | Inr s \<Rightarrow>
      (case getitem (str_split s) 0 of Inl e \<Rightarrow> Inl e | Inr commit_type \<Rightarrow>
         if \<not> startswith_any commit_type conventional_commit_type
         then Inr (PyBool True) else Inr (PyBool False)))"

text \<open>\<^verbatim>\<open>commit_message.splitlines()[0].strip()\<close>, the first line of four of the rules.\<close>

definition commit_header_of :: "pyval \<Rightarrow> pyerror + string" where
  "commit_header_of commit_message =
     (case str_method commit_message of Inl e \<Rightarrow> Inl e | Inr s \<Rightarrow>
      (case getitem (str_splitlines s) 0 of Inl e \<Rightarrow> Inl e | Inr line \<Rightarrow>
         Inr (str_strip line)))"

definition subject_empty :: "pyval \<Rightarrow> pyerror + pyval" where
  "subject_empty commit_message =
     (case commit_header_of commit_message of Inl e \<Rightarrow> Inl e | Inr commit_header \<Rightarrow>
      (case getitem (str_split_sep CHR '':'' commit_header) (- 1) of Inl e \<Rightarrow> Inl e
       | Inr commit_subject \<Rightarrow>
         if CHR '':'' \<notin> set commit_header \<or> \<not> (commit_subject \<noteq> [])
         then Inr (PyBool True) else Inr (PyBool False)))"

definition subject_length :: "pyval \<Rightarrow> pyerror + pyval" where
  "subject_length commit_message =
     (case commit_header_of commit_message of Inl e \<Rightarrow> Inl e | Inr commit_header \<Rightarrow>
        if length commit_header > 100 then Inr (PyBool True) else Inr (PyBool False))"

definition subject_case :: "pyval \<Rightarrow> pyerror + pyval" where
  "subject_case commit_message =
     (case commit_header_of commit_message of Inl e \<Rightarrow> Inl e | Inr commit_header \<Rightarrow>
      (case getitem (str_split_sep CHR '':'' commit_header) (- 1) of Inl e \<Rightarrow> Inl e
       | Inr commit_subject \<Rightarrow>
         if \<not> str_islower commit_subject then Inr (PyBool True) else Inr (PyBool False)))"

definition subject_full_stop :: "pyval \<Rightarrow> pyerror + pyval" where
  "subject_full_stop commit_message =
     (case commit_header_of commit_message of Inl e \<Rightarrow> Inl e | Inr commit_header \<Rightarrow>
      (case getitem commit_header (- 1) of Inl e \<Rightarrow> Inl e
       | Inr last_chr \<Rightarrow>
         if \<not> isalpha_chr last_chr then Inr (PyBool True) else Inr (PyBool False)))"

text \<open>
  The two body rules walk the lines with a counter, return True at the first offending
  line and otherwise reach the end of the function, which returns \<^verbatim>\<open>None\<close>.
\<close>

fun body_leading_blank_loop :: "nat \<Rightarrow> string list \<Rightarrow> pyval" where
  "body_leading_blank_loop count [] = PyNone"
| "body_leading_blank_loop count (line # lines) =
     (if count + 1 = 2 \<and> str_strip line \<noteq> [] then PyBool True
      else body_leading_blank_loop (count + 1) lines)"

definition body_leading_blank :: "pyval \<Rightarrow> pyerror + pyval" where
  "body_leading_blank commit_message =
     (case str_method commit_message of Inl e \<Rightarrow> Inl e | Inr s \<Rightarrow>
        Inr (body_leading_blank_loop 0 (str_splitlines s)))"

fun body_max_length_loop :: "nat \<Rightarrow> string list \<Rightarrow> pyval" where
  "body_max_length_loop count [] = PyNone"
| "body_max_length_loop count (line # lines) =
     (if count + 1 > 2 \<and> length line > 100 then PyBool True
      else body_max_length_loop (count + 1) lines)"

definition body_max_length :: "pyval \<Rightarrow> pyerror + pyval" where
  "body_max_length commit_message =
     (case str_method commit_message of Inl e \<Rightarrow> Inl e | Inr s \<Rightarrow>
        Inr (body_max_length_loop 0 (str_splitlines s)))"

section \<open>The run\<close>

text \<open>
  A run ends in \<^verbatim>\<open>sys.exit\<close> after one of the two summaries, or in an exception that
  nothing catches; the interpreter then prints a traceback and exits with status 1.
\<close>

datatype summary = HasErrors nat | AllValid

datatype outcome = Exit summary nat | Uncaught pyerror

fun exit_status :: "outcome \<Rightarrow> nat" where
  "exit_status (Exit b n) = n"
| "exit_status (Uncaught e) = 1"


text \<open>\<^verbatim>\<open>if check(...): error_count += 1\<close>, for the value the check returned or the exception it raised.\<close>

definition count_error :: "pyerror + pyval \<Rightarrow> nat \<Rightarrow> pyerror + nat" where
  "count_error r error_count =
     (case r of Inl e \<Rightarrow> Inl e
      | Inr v \<Rightarrow> Inr (if truthy v then error_count + 1 else error_count))"

text \<open>The last lines of \<^verbatim>\<open>main\<close>: the summary and the exit status.\<close>

definition report :: "nat \<Rightarrow> outcome" where
  "report error_count =
     (if error_count > 0 then Exit (HasErrors error_count) 1 else Exit AllValid 0)"

text \<open>
  \<^verbatim>\<open>main\<close>: \<open>argv\<close> is \<^verbatim>\<open>sys.argv\<close>. The first two rules get \<^verbatim>\<open>last_commit\<close>; the other five
  get \<^verbatim>\<open>commit_msg\<close>, the function.
\<close>

definition main :: "string list \<Rightarrow> git \<Rightarrow> outcome" where
  "main argv g =
     (case getitem argv 1 of Inl e \<Rightarrow> Uncaught e | Inr path \<Rightarrow>
      (case commit_msg g (Some path) of Inl e \<Rightarrow> Uncaught e | Inr last_commit \<Rightarrow>
      (case count_error (header_type last_commit) 0 of Inl e \<Rightarrow> Uncaught e | Inr c1 \<Rightarrow>
      (case count_error (subject_empty last_commit) c1 of Inl e \<Rightarrow> Uncaught e | Inr c2 \<Rightarrow>
      (case count_error (subject_length PyFunction) c2 of Inl e \<Rightarrow> Uncaught e | Inr c3 \<Rightarrow>
      (case count_error (subject_case PyFunction) c3 of Inl e \<Rightarrow> Uncaught e | Inr c4 \<Rightarrow>
      (case count_error (subject_full_stop PyFunction) c4 of Inl e \<Rightarrow> Uncaught e | Inr c5 \<Rightarrow>
      (case count_error (body_leading_blank PyFunction) c5 of Inl e \<Rightarrow> Uncaught e | Inr c6 \<Rightarrow>
      (case count_error (body_max_length PyFunction) c6 of Inl e \<Rightarrow> Uncaught e | Inr c7 \<Rightarrow>
         report c7)))))))))"

section \<open>The notions of the specification\<close>

text \<open>
  The definitions of this section follow the words of the specification, not the code;
  the theorems below compare the rules with them. The first line is the text before the
  first line break, the header is the first line trimmed, a token is a maximal run of
  characters that are not whitespace, and the subject is the part of the header after its
  last colon (the whole header when it has no colon).
\<close>

definition spec_first_line :: "string \<Rightarrow> string" where
  "spec_first_line m = takeWhile (\<lambda>x. \<not> is_linebreak x) m"

definition spec_header :: "string \<Rightarrow> string" where
  "spec_header m = str_strip (spec_first_line m)"

definition spec_first_token :: "string \<Rightarrow> string option" where
  "spec_first_token s =
     (case dropWhile isspace_chr s of
        [] \<Rightarrow> None
      | c # r \<Rightarrow> Some (takeWhile (\<lambda>x. \<not> isspace_chr x) (c # r)))"

definition after_last_colon :: "string \<Rightarrow> string" where
  "after_last_colon h = rev (takeWhile (\<lambda>x. x \<noteq> CHR '':'') (rev h))"

text \<open>
  Header type, as specified: the first token of the header does not start with one of
  the eleven literals (a header without any token has no token that does).
\<close>

definition spec_header_type_violation :: "string \<Rightarrow> bool" where
  "spec_header_type_violation m =
     (case spec_first_token (spec_header m) of
        None \<Rightarrow> True
      | Some t \<Rightarrow> \<not> startswith_any t conventional_commit_type)"


text \<open>
  Subject empty, as specified: the header has no colon, or the subject is empty after
  trimming.
\<close>

definition spec_subject_empty_violation :: "string \<Rightarrow> bool" where
  "spec_subject_empty_violation m =
     (CHR '':'' \<notin> set (spec_header m) \<or> str_strip (after_last_colon (spec_header m)) = [])"

text \<open>
  A valid message, as the specification describes it: the first line is one of the eleven
  literals followed by a subject that is not empty, has no uppercase letter and ends in
  an alphabetic character; the line has at most 100 characters (the bound is on the
  whole line, which is what the subject-length rule measures); and if there is a second
  line it is blank and the lines after it have at most 100 characters.
\<close>

definition spec_valid_message :: "string \<Rightarrow> bool" where
  "spec_valid_message m =
     ((\<exists>p \<in> set conventional_commit_type.
         str_startswith (spec_first_line m) p \<and>
         (let subject = drop (length p) (spec_first_line m)
          in subject \<noteq> [] \<and> (\<forall>c \<in> set subject. \<not> isupper_chr c) \<and> isalpha_chr (last subject)))
      \<and> length (spec_first_line m) \<le> 100
      \<and> (case str_splitlines m of
           l1 # l2 # body \<Rightarrow> str_strip l2 = [] \<and> (\<forall>l \<in> set body. length l \<le> 100)
         | _ \<Rightarrow> True))"

section \<open>Indexing facts\<close>

lemma getitem_first_Cons: "getitem (x # xs) 0 = Inr x"
  by (simp add: getitem_def)

lemma getitem_first_Nil: "getitem [] 0 = Inl IndexError"
  by (simp add: getitem_def)

lemma getitem_last_Nil: "getitem [] (- 1) = Inl IndexError"
  by (simp add: getitem_def)

lemma getitem_last: "xs \<noteq> [] \<Longrightarrow> getitem xs (- 1) = Inr (last xs)"
proof -
  assume ne: "xs \<noteq> []"
  then have pos: "0 < length xs" by simp
  then have idx: "nat (int (length xs) - 1) = length xs - 1" by arith
  from pos have "getitem xs (- 1) = Inr (xs ! nat (int (length xs) - 1))"
    by (simp add: getitem_def)
  with ne idx show ?thesis by (simp add: last_conv_nth)
qed

section \<open>Facts about the methods of str\<close>

text \<open>Every line break is whitespace, so a token never runs across a line break.\<close>

lemma linebreak_is_space: "is_linebreak c \<Longrightarrow> isspace_chr c"
  by (auto simp add: is_linebreak_def isspace_chr_def Let_def)

lemma takeWhile_append_stop:
  "ys = [] \<or> \<not> P (hd ys) \<Longrightarrow> takeWhile P (xs @ ys) = takeWhile P xs"
proof (induction xs)
  case Nil
  then show ?case by (cases ys) auto
next
  case (Cons x xs)
  then show ?case by simp
qed

lemma split_at_end: "xs = rev (dropWhile P (rev xs)) @ rev (takeWhile P (rev xs))"
proof -
  have "rev (rev xs) = rev (takeWhile P (rev xs) @ dropWhile P (rev xs))"
    by (simp only: takeWhile_dropWhile_id)
  then show ?thesis by (simp only: rev_rev_ident rev_append)
qed

text \<open>An alphabetic character is neither whitespace nor a colon, and it is cased.\<close>

lemma alpha_not_space: "isalpha_chr c \<Longrightarrow> \<not> isspace_chr c"
  by (auto simp add: isalpha_chr_def isspace_chr_def Let_def)

lemma alpha_not_colon: "isalpha_chr c \<Longrightarrow> c \<noteq> CHR '':''"
  by (auto simp add: isalpha_chr_def Let_def)

lemma alpha_lower_or_upper: "isalpha_chr c \<Longrightarrow> \<not> isupper_chr c \<Longrightarrow> islower_chr c"
  by (auto simp add: isalpha_chr_def isupper_chr_def islower_chr_def Let_def)

subsection \<open>split()\<close>

lemma str_split_unfold_Nil: "dropWhile isspace_chr s = [] \<Longrightarrow> str_split s = []"
  by (subst str_split.simps) (simp only: list.case)

lemma str_split_unfold_Cons:
  "dropWhile isspace_chr s = c # r \<Longrightarrow>
   str_split s = (c # takeWhile (\<lambda>x. \<not> isspace_chr x) r)
                 # str_split (dropWhile (\<lambda>x. \<not> isspace_chr x) r)"
  by (subst str_split.simps) (simp only: list.case)

lemma str_split_Nil_iff: "(str_split s = []) = (dropWhile isspace_chr s = [])"
proof (cases "dropWhile isspace_chr s")
  case Nil
  with str_split_unfold_Nil [OF Nil] show ?thesis by simp
next
  case (Cons c r)
  with str_split_unfold_Cons [OF Cons] show ?thesis by simp
qed

lemma spec_first_token_alt:
  "spec_first_token s =
     (if dropWhile isspace_chr s = [] then None
      else Some (takeWhile (\<lambda>x. \<not> isspace_chr x) (dropWhile isspace_chr s)))"
  by (cases "dropWhile isspace_chr s") (simp_all only: spec_first_token_def list.case, simp_all)

text \<open>The first element of \<^verbatim>\<open>s.split()\<close> is the first token of the text, if there is one.\<close>

lemma str_split_first:
  "getitem (str_split s) 0
     = (case spec_first_token s of None \<Rightarrow> Inl IndexError | Some t \<Rightarrow> Inr t)"
proof (cases "dropWhile isspace_chr s")
  case Nil
  then have "str_split s = []" by (rule str_split_unfold_Nil)
  moreover from Nil have "spec_first_token s = None"
    by (simp only: spec_first_token_def list.case)
  ultimately show ?thesis
    by (simp add: getitem_first_Nil)
next
  case (Cons c r)
  then have nsp: "\<not> isspace_chr c"
    using hd_dropWhile [of isspace_chr s] by simp
  then have tw: "takeWhile (\<lambda>x. \<not> isspace_chr x) (c # r) = c # takeWhile (\<lambda>x. \<not> isspace_chr x) r"
    by simp
  from Cons have "spec_first_token s = Some (takeWhile (\<lambda>x. \<not> isspace_chr x) (c # r))"
    by (simp only: spec_first_token_def list.case)
  moreover note str_split_unfold_Cons [OF Cons]
  ultimately show ?thesis
    using nsp by (simp add: getitem_first_Cons)
qed

subsection \<open>splitlines()\<close>

lemma str_splitlines_first:
  "m \<noteq> [] \<Longrightarrow> \<exists>ls. str_splitlines m = takeWhile (\<lambda>x. \<not> is_linebreak x) m # ls"
proof (cases m)
  case Nil
  assume "m \<noteq> []" with Nil show ?thesis by simp
next
  case (Cons a s)
  show ?thesis
  proof (cases "dropWhile (\<lambda>x. \<not> is_linebreak x) (a # s)")
    case Nil
    then have "takeWhile (\<lambda>x. \<not> is_linebreak x) (a # s) = a # s"
      by (metis takeWhile_dropWhile_id append_Nil2)
    with Nil Cons show ?thesis by simp
  next
    case (Cons c r)
    with \<open>m = a # s\<close> show ?thesis by simp
  qed
qed

lemma str_splitlines_Nil_iff: "(str_splitlines m = []) = (m = [])"
  using str_splitlines_first [of m] by (cases m) auto

subsection \<open>strip()\<close>

lemma str_strip_of_blank: "dropWhile isspace_chr s = [] \<Longrightarrow> str_strip s = []"
  by (simp only: str_strip_def rev.simps dropWhile.simps)

lemma str_strip_decomp:
  "dropWhile isspace_chr s = str_strip s @ rev (takeWhile isspace_chr (rev (dropWhile isspace_chr s)))"
  unfolding str_strip_def by (rule split_at_end)

lemma str_strip_Nil_iff: "(str_strip s = []) = (\<forall>c \<in> set s. isspace_chr c)"
proof
  assume "str_strip s = []"
  then have "\<forall>c \<in> set (rev (dropWhile isspace_chr s)). isspace_chr c"
    by (simp add: str_strip_def)
  then have "dropWhile isspace_chr s = []"
    using hd_dropWhile [of isspace_chr s] by (cases "dropWhile isspace_chr s") auto
  then show "\<forall>c \<in> set s. isspace_chr c" by simp
next
  assume "\<forall>c \<in> set s. isspace_chr c"
  then have "dropWhile isspace_chr s = []" by simp
  then show "str_strip s = []" by (rule str_strip_of_blank)
qed

lemma str_strip_hd: "str_strip s \<noteq> [] \<Longrightarrow> \<not> isspace_chr (hd (str_strip s))"
proof -
  assume ne: "str_strip s \<noteq> []"
  then have "dropWhile isspace_chr s \<noteq> []"
    using str_strip_of_blank by blast
  then have "\<not> isspace_chr (hd (dropWhile isspace_chr s))"
    by (rule hd_dropWhile)
  moreover have "hd (dropWhile isspace_chr s) = hd (str_strip s)"
    using ne by (subst str_strip_decomp) simp
  ultimately show ?thesis by simp
qed

lemma str_strip_last: "str_strip s \<noteq> [] \<Longrightarrow> \<not> isspace_chr (last (str_strip s))"
proof -
  let ?y = "dropWhile isspace_chr (rev (dropWhile isspace_chr s))"
  assume "str_strip s \<noteq> []"
  then have ne: "?y \<noteq> []" by (simp add: str_strip_def)
  then have "\<not> isspace_chr (hd ?y)" by (rule hd_dropWhile)
  moreover from ne have "last (rev ?y) = hd ?y" by (simp add: last_rev)
  ultimately show ?thesis by (simp add: str_strip_def)
qed

lemma str_strip_id:
  assumes "s \<noteq> []" and "\<not> isspace_chr (hd s)" and "\<not> isspace_chr (last s)"
  shows "str_strip s = s"
proof -
  from assms(1,2) have d: "dropWhile isspace_chr s = s" by (cases s) auto
  from assms(1,3) have "\<not> isspace_chr (hd (rev s))" by (simp add: hd_rev)
  with assms(1) have "dropWhile isspace_chr (rev s) = rev s" by (cases "rev s") auto
  with d show ?thesis by (simp add: str_strip_def)
qed

subsection \<open>split(":") and islower()\<close>

lemma str_split_sep_unfold_Nil:
  "dropWhile (\<lambda>x. x \<noteq> sep) s = [] \<Longrightarrow> str_split_sep sep s = [s]"
  by (subst str_split_sep.simps) (simp only: list.case)

lemma str_split_sep_unfold_Cons:
  "dropWhile (\<lambda>x. x \<noteq> sep) s = c # r \<Longrightarrow>
   str_split_sep sep s = takeWhile (\<lambda>x. x \<noteq> sep) s # str_split_sep sep r"
  by (subst str_split_sep.simps) (simp only: list.case)

text \<open>The last piece of \<^verbatim>\<open>h.split(":")\<close> is the text after the last colon of \<open>h\<close>.\<close>

lemma str_split_sep_last:
  "str_split_sep sep s \<noteq> []
   \<and> last (str_split_sep sep s) = rev (takeWhile (\<lambda>x. x \<noteq> sep) (rev s))"
proof (induction sep s rule: str_split_sep.induct)
  case (1 sep s)
  show ?case
  proof (cases "dropWhile (\<lambda>x. x \<noteq> sep) s")
    case Nil
    then have all: "\<forall>x \<in> set (rev s). x \<noteq> sep" by simp
    have tw: "takeWhile (\<lambda>x. x \<noteq> sep) (rev s) = rev s"
      using all by (simp only: takeWhile_eq_all_conv)
    show ?thesis
      unfolding str_split_sep_unfold_Nil [OF Nil] tw by simp
  next
    case (Cons c r)
    have c: "c = sep"
      using hd_dropWhile [of "\<lambda>x. x \<noteq> sep" s] Cons by simp
    have "s = takeWhile (\<lambda>x. x \<noteq> sep) s @ dropWhile (\<lambda>x. x \<noteq> sep) s" by simp
    with Cons c have "rev s = rev r @ (sep # rev (takeWhile (\<lambda>x. x \<noteq> sep) s))"
      by (metis rev_append rev.simps(2) append_assoc append_Cons append_Nil)
    moreover have "takeWhile (\<lambda>x. x \<noteq> sep) (rev r @ (sep # rev (takeWhile (\<lambda>x. x \<noteq> sep) s)))
        = takeWhile (\<lambda>x. x \<noteq> sep) (rev r)"
      by (rule takeWhile_append_stop) simp
    ultimately have "takeWhile (\<lambda>x. x \<noteq> sep) (rev s) = takeWhile (\<lambda>x. x \<noteq> sep) (rev r)"
      by simp
    with "1.IH" [OF Cons] str_split_sep_unfold_Cons [OF Cons] show ?thesis by simp
  qed
qed

lemma subject_of_header:
  "getitem (str_split_sep CHR '':'' h) (- 1) = Inr (after_last_colon h)"
  using str_split_sep_last [of "CHR '':''" h]
  by (simp add: getitem_last after_last_colon_def)

lemma after_last_colon_suffix: "\<exists>pre. h = pre @ after_last_colon h"
proof -
  have "h = rev (dropWhile (\<lambda>x. x \<noteq> CHR '':'') (rev h)) @ after_last_colon h"
    unfolding after_last_colon_def by (rule split_at_end)
  then show ?thesis ..
qed

lemma islower_loop_iff:
  "islower_loop cased s
     = ((cased \<or> (\<exists>c \<in> set s. islower_chr c)) \<and> (\<forall>c \<in> set s. \<not> isupper_chr c))"
  by (induction s arbitrary: cased) auto

section \<open>What each rule computes on a message text\<close>

lemma header_type_first_token:
  "header_type (PyStr m)
     = (case spec_first_token m of
          None \<Rightarrow> Inl IndexError
        | Some t \<Rightarrow> Inr (PyBool (\<not> startswith_any t conventional_commit_type)))"
  by (simp add: header_type_def str_method_def str_split_first split: option.split)

lemma commit_header_of_str:
  "commit_header_of (PyStr m) = (if m = [] then Inl IndexError else Inr (spec_header m))"
proof (cases "m = []")
  case True
  then show ?thesis
    by (simp add: commit_header_of_def str_method_def getitem_first_Nil)
next
  case False
  then obtain ls where "str_splitlines m = takeWhile (\<lambda>x. \<not> is_linebreak x) m # ls"
    using str_splitlines_first by blast
  with False show ?thesis
    by (simp add: commit_header_of_def str_method_def getitem_first_Cons spec_header_def spec_first_line_def)
qed

lemma spec_header_nonempty_message: "spec_header m \<noteq> [] \<Longrightarrow> m \<noteq> []"
  by (auto simp add: spec_header_def spec_first_line_def str_strip_def)

text \<open>
  In a header with a token, that token is the first token of the whole text: the
  characters before it are whitespace of the first line, and the line break that ends
  the first line ends the token too.
\<close>

lemma first_token_of_header:
  assumes "spec_header m \<noteq> []"
  shows "spec_first_token (spec_header m) = spec_first_token m"
    and "spec_first_token m \<noteq> None"
proof -
  let ?sp = isspace_chr
  let ?l = "takeWhile (\<lambda>x. \<not> is_linebreak x) m"
  let ?r = "dropWhile (\<lambda>x. \<not> is_linebreak x) m"
  let ?x = "dropWhile ?sp ?l"
  let ?y = "str_strip ?l"
  let ?z = "rev (takeWhile ?sp (rev ?x))"
  from assms have y: "?y \<noteq> []" by (simp add: spec_header_def spec_first_line_def)
  have xyz: "?x = ?y @ ?z" by (rule str_strip_decomp)
  with y have x: "?x \<noteq> []" by (metis Nil_is_append_conv)
  have r: "?r = [] \<or> \<not> (\<lambda>x. \<not> ?sp x) (hd ?r)"
    using hd_dropWhile [of "\<lambda>x. \<not> is_linebreak x" m] linebreak_is_space by auto
  have z: "?z = [] \<or> \<not> (\<lambda>x. \<not> ?sp x) (hd ?z)"
  proof (cases "?z = []")
    case False
    then have "hd ?z \<in> set ?z" by (rule hd_in_set)
    then have "hd ?z \<in> set (takeWhile ?sp (rev ?x))" by simp
    then show ?thesis by (auto dest: set_takeWhileD)
  qed simp
  from x obtain c where c: "c \<in> set ?l" "\<not> ?sp c"
    by (auto simp add: dropWhile_eq_Nil_conv)
  have "m = ?l @ ?r" by simp
  then have "dropWhile ?sp m = dropWhile ?sp (?l @ ?r)" by simp
  also have "\<dots> = ?x @ ?r" using c by (rule dropWhile_append1)
  finally have dm: "dropWhile ?sp m = ?x @ ?r" .
  with x have tm: "spec_first_token m = Some (takeWhile (\<lambda>x. \<not> ?sp x) (?x @ ?r))"
    by (simp add: spec_first_token_alt)
  then show "spec_first_token m \<noteq> None" by simp
  have t1: "takeWhile (\<lambda>x. \<not> ?sp x) (?x @ ?r) = takeWhile (\<lambda>x. \<not> ?sp x) ?x"
    using r by (rule takeWhile_append_stop)
  have "takeWhile (\<lambda>x. \<not> ?sp x) (?y @ ?z) = takeWhile (\<lambda>x. \<not> ?sp x) ?y"
    using z by (rule takeWhile_append_stop)
  with xyz have t2: "takeWhile (\<lambda>x. \<not> ?sp x) ?x = takeWhile (\<lambda>x. \<not> ?sp x) ?y" by simp
  from y have "\<not> ?sp (hd ?y)" by (rule str_strip_hd)
  with y have dy: "dropWhile ?sp ?y = ?y" by (cases ?y) auto
  with y have "spec_first_token ?y = Some (takeWhile (\<lambda>x. \<not> ?sp x) ?y)"
    by (simp add: spec_first_token_alt)
  with tm t1 t2 show "spec_first_token (spec_header m) = spec_first_token m"
    by (simp add: spec_header_def spec_first_line_def)
qed

lemma subject_empty_str:
  "m \<noteq> [] \<Longrightarrow>
   subject_empty (PyStr m)
     = Inr (PyBool (CHR '':'' \<notin> set (spec_header m) \<or> after_last_colon (spec_header m) = []))"
  by (simp add: subject_empty_def commit_header_of_str subject_of_header)

lemma subject_length_str:
  "m \<noteq> [] \<Longrightarrow> subject_length (PyStr m) = Inr (PyBool (length (spec_header m) > 100))"
  by (simp add: subject_length_def commit_header_of_str)

lemma subject_case_str:
  "m \<noteq> [] \<Longrightarrow>
   subject_case (PyStr m) = Inr (PyBool (\<not> str_islower (after_last_colon (spec_header m))))"
  by (simp add: subject_case_def commit_header_of_str subject_of_header)

lemma subject_full_stop_str:
  "spec_header m \<noteq> [] \<Longrightarrow>
   subject_full_stop (PyStr m) = Inr (PyBool (\<not> isalpha_chr (last (spec_header m))))"
  using spec_header_nonempty_message [of m]
  by (simp add: subject_full_stop_def commit_header_of_str getitem_last)

text \<open>
  A trimmed header does not end in whitespace, so the text after its last colon is
  blank only when it is empty.
\<close>

lemma subject_of_stripped_header:
  "(str_strip (after_last_colon (spec_header m)) = []) = (after_last_colon (spec_header m) = [])"
proof
  let ?h = "spec_header m"
  let ?s = "after_last_colon ?h"
  assume blank: "str_strip ?s = []"
  show "?s = []"
  proof (rule ccontr)
    assume ne: "?s \<noteq> []"
    obtain pre where pre: "?h = pre @ ?s" using after_last_colon_suffix by blast
    with ne have "last ?h = last ?s" by (metis last_appendR)
    moreover from pre ne have "?h \<noteq> []" by (metis append_is_Nil_conv)
    then have "\<not> isspace_chr (last ?h)"
      unfolding spec_header_def by (rule str_strip_last)
    moreover from blank ne have "isspace_chr (last ?s)"
      by (simp add: str_strip_Nil_iff)
    ultimately show False by simp
  qed
next
  assume "after_last_colon (spec_header m) = []"
  then show "str_strip (after_last_colon (spec_header m)) = []"
    by (simp add: str_strip_def)
qed

lemma body_leading_blank_loop_result:
  "body_leading_blank_loop count lines = PyBool True \<or> body_leading_blank_loop count lines = PyNone"
  by (induction lines arbitrary: count) auto

lemma body_max_length_loop_result:
  "body_max_length_loop count lines = PyBool True \<or> body_max_length_loop count lines = PyNone"
  by (induction lines arbitrary: count) auto

lemma body_leading_blank_loop_late:
  "2 \<le> count \<Longrightarrow> body_leading_blank_loop count lines = PyNone"
  by (induction lines arbitrary: count) auto

lemma body_max_length_loop_short:
  "\<forall>l \<in> set lines. length l \<le> 100 \<Longrightarrow> body_max_length_loop count lines = PyNone"
  by (induction lines arbitrary: count) auto

text \<open>Exactly when the five header rules raise.\<close>

lemma header_rules_raise_iff:
  "(header_type (PyStr m) = Inl IndexError) = (\<forall>c \<in> set m. isspace_chr c)"
  "(subject_empty (PyStr m) = Inl IndexError) = (m = [])"
  "(subject_length (PyStr m) = Inl IndexError) = (m = [])"
  "(subject_case (PyStr m) = Inl IndexError) = (m = [])"
  "(subject_full_stop (PyStr m) = Inl IndexError) = (spec_header m = [])"
proof -
  show "(header_type (PyStr m) = Inl IndexError) = (\<forall>c \<in> set m. isspace_chr c)"
    by (simp add: header_type_first_token spec_first_token_alt)
  show "(subject_empty (PyStr m) = Inl IndexError) = (m = [])"
    by (cases "m = []") (simp_all add: subject_empty_str, simp add: subject_empty_def commit_header_of_str)
  show "(subject_length (PyStr m) = Inl IndexError) = (m = [])"
    by (cases "m = []") (simp_all add: subject_length_str, simp add: subject_length_def commit_header_of_str)
  show "(subject_case (PyStr m) = Inl IndexError) = (m = [])"
    by (cases "m = []") (simp_all add: subject_case_str, simp add: subject_case_def commit_header_of_str)
  show "(subject_full_stop (PyStr m) = Inl IndexError) = (spec_header m = [])"
  proof (cases "spec_header m = []")
    case True
    then show ?thesis
      by (simp add: subject_full_stop_def commit_header_of_str getitem_last_Nil)
  next
    case False
    then show ?thesis by (simp add: subject_full_stop_str)
  qed
qed

section \<open>The rules on a valid message\<close>

text \<open>Each literal ends in a colon and contains no whitespace.\<close>

lemma literal_shape:
  "list_all (\<lambda>p. p \<noteq> [] \<and> last p = CHR '':'' \<and> list_all (\<lambda>c. \<not> isspace_chr c) p)
     conventional_commit_type"
  by code_simp

lemma literal_facts:
  assumes "p \<in> set conventional_commit_type"
  shows "p \<noteq> []" and "last p = CHR '':''" and "\<forall>c \<in> set p. \<not> isspace_chr c"
  using assms literal_shape by (auto simp add: list_all_iff)

text \<open>
  Called on the text of a valid message, none of the seven rules reports a violation:
  the five header rules return False and the two body rules return \<^verbatim>\<open>None\<close>.
\<close>

lemma valid_message_rules_pass:
  assumes "spec_valid_message m"
  shows "header_type (PyStr m) = Inr (PyBool False)"
    and "subject_empty (PyStr m) = Inr (PyBool False)"
    and "subject_length (PyStr m) = Inr (PyBool False)"
    and "subject_case (PyStr m) = Inr (PyBool False)"
    and "subject_full_stop (PyStr m) = Inr (PyBool False)"
    and "body_leading_blank (PyStr m) = Inr PyNone"
    and "body_max_length (PyStr m) = Inr PyNone"
proof -
  let ?line = "spec_first_line m"
  from assms obtain p where p: "p \<in> set conventional_commit_type"
    and sw: "str_startswith ?line p"
    and sne: "drop (length p) ?line \<noteq> []"
    and low: "\<forall>c \<in> set (drop (length p) ?line). \<not> isupper_chr c"
    and alp: "isalpha_chr (last (drop (length p) ?line))"
    and len: "length ?line \<le> 100"
    and body: "(case str_splitlines m of
           l1 # l2 # body \<Rightarrow> str_strip l2 = [] \<and> (\<forall>l \<in> set body. length l \<le> 100)
         | _ \<Rightarrow> True)"
    unfolding spec_valid_message_def Let_def by blast
  define subject where "subject = drop (length p) ?line"
  have line: "?line = p @ subject"
    using sw append_take_drop_id [of "length p" ?line]
    by (simp add: str_startswith_def subject_def)
  note lit = literal_facts [OF p]
  from sne have s_ne: "subject \<noteq> []" by (simp add: subject_def)
  from alp have s_alpha: "isalpha_chr (last subject)" by (simp add: subject_def)
  from low have s_low: "\<forall>c \<in> set subject. \<not> isupper_chr c" by (simp add: subject_def)
  have line_ne: "?line \<noteq> []" using line s_ne by simp
  have last_line: "last ?line = last subject" using line s_ne by simp
  have hd_line: "hd ?line = hd p" using line lit(1) by simp
  have "\<not> isspace_chr (hd ?line)"
    using hd_line lit(1) lit(3) by (simp add: hd_in_set)
  moreover have "\<not> isspace_chr (last ?line)"
    using last_line s_alpha by (simp add: alpha_not_space)
  ultimately have header: "spec_header m = ?line"
    unfolding spec_header_def using line_ne by (intro str_strip_id)
  then have h_ne: "spec_header m \<noteq> []" using line_ne by simp
  then have m_ne: "m \<noteq> []" by (rule spec_header_nonempty_message)

  \<comment> \<open>header type\<close>
  have tok: "spec_first_token (spec_header m) = spec_first_token m"
    using h_ne by (rule first_token_of_header)
  have dl: "dropWhile isspace_chr ?line = ?line"
    using \<open>\<not> isspace_chr (hd ?line)\<close> line_ne by (cases ?line) auto
  have "takeWhile (\<lambda>x. \<not> isspace_chr x) (p @ subject) = p @ takeWhile (\<lambda>x. \<not> isspace_chr x) subject"
    using lit(3) by (simp add: takeWhile_append2)
  with dl line line_ne
  have "spec_first_token ?line = Some (p @ takeWhile (\<lambda>x. \<not> isspace_chr x) subject)"
    by (simp add: spec_first_token_alt)
  with tok header
  have ft: "spec_first_token m = Some (p @ takeWhile (\<lambda>x. \<not> isspace_chr x) subject)"
    by simp
  have "str_startswith (p @ takeWhile (\<lambda>x. \<not> isspace_chr x) subject) p"
    by (simp add: str_startswith_def)
  with p have "startswith_any (p @ takeWhile (\<lambda>x. \<not> isspace_chr x) subject) conventional_commit_type"
    unfolding startswith_any_def list_ex_iff by blast
  then show "header_type (PyStr m) = Inr (PyBool False)"
    by (simp add: header_type_first_token ft)

  \<comment> \<open>the subject of the header\<close>
  have colon: "CHR '':'' \<in> set (spec_header m)"
    using header line lit(1,2) last_in_set [of p] by auto
  have "rev ?line = rev subject @ rev p" using line by simp
  moreover have "takeWhile (\<lambda>x. x \<noteq> CHR '':'') (rev subject @ rev p)
       = takeWhile (\<lambda>x. x \<noteq> CHR '':'') (rev subject)"
    using lit(1,2) by (intro takeWhile_append_stop) (simp add: hd_rev)
  ultimately have alc: "after_last_colon ?line = after_last_colon subject"
    by (simp add: after_last_colon_def)
  have last_nc: "last subject \<noteq> CHR '':''"
    using s_alpha by (rule alpha_not_colon)
  obtain t where rs: "rev subject = last subject # t"
    using s_ne by (cases "rev subject") (auto simp add: last_rev [symmetric] simp del: last_rev)
  have tw: "takeWhile (\<lambda>x. x \<noteq> CHR '':'') (rev subject)
       = last subject # takeWhile (\<lambda>x. x \<noteq> CHR '':'') t"
    unfolding rs using last_nc by simp
  have in_subj: "last subject \<in> set (after_last_colon subject)"
    by (simp add: after_last_colon_def tw)
  have sub: "set (after_last_colon subject) \<subseteq> set subject"
    unfolding after_last_colon_def using set_takeWhileD [of _ "\<lambda>x. x \<noteq> CHR '':''" "rev subject"]
    by auto
  from in_subj have alc_ne: "after_last_colon subject \<noteq> []" by auto
  show "subject_empty (PyStr m) = Inr (PyBool False)"
    using m_ne colon alc_ne by (simp add: subject_empty_str header alc)
  show "subject_length (PyStr m) = Inr (PyBool False)"
    using m_ne len by (simp add: subject_length_str header)
  have "islower_chr (last subject)"
    using s_alpha s_low s_ne by (intro alpha_lower_or_upper) auto
  with in_subj sub s_low show "subject_case (PyStr m) = Inr (PyBool False)"
    using m_ne by (auto simp add: subject_case_str header alc str_islower_def islower_loop_iff)
  show "subject_full_stop (PyStr m) = Inr (PyBool False)"
    using h_ne s_alpha by (simp add: subject_full_stop_str header last_line)

  \<comment> \<open>the body\<close>
  show "body_leading_blank (PyStr m) = Inr PyNone"
    using body
    by (auto simp add: body_leading_blank_def str_method_def body_leading_blank_loop_late
        split: list.splits)
  show "body_max_length (PyStr m) = Inr PyNone"
    using body
    by (auto simp add: body_max_length_def str_method_def body_max_length_loop_short
        split: list.splits)
qed

text \<open>The message of scenario 1 is valid, so the lemma above is not empty.\<close>

lemma scenario_one_valid: "spec_valid_message ''fix: correct off-by-one error''"
  by code_simp

text \<open>
  The subject-length rule measures the header, not the text after the colon: a subject of
  95 characters after \<^verbatim>\<open>refactor:\<close> and a blank makes a header of 105, which is flagged.
\<close>

lemma long_header_example:
  "length (after_last_colon (spec_header (''refactor: '' @ replicate 95 CHR ''a''))) \<le> 100
   \<and> subject_length (PyStr (''refactor: '' @ replicate 95 CHR ''a'')) = Inr (PyBool True)"
  by code_simp

section \<open>The run: what main does with its arguments\<close>

text \<open>
  The third rule is called on the function object, which has no \<^verbatim>\<open>splitlines\<close>; so are the
  four rules after it.
\<close>

lemma rules_on_function_object:
  "subject_length PyFunction = Inl AttributeError"
  "subject_case PyFunction = Inl AttributeError"
  "subject_full_stop PyFunction = Inl AttributeError"
  "body_leading_blank PyFunction = Inl AttributeError"
  "body_max_length PyFunction = Inl AttributeError"
  by (simp_all add: subject_length_def subject_case_def subject_full_stop_def
      body_leading_blank_def body_max_length_def commit_header_of_def str_method_def)

text \<open>No run reaches the summary: every run ends in an exception.\<close>

lemma main_always_uncaught: "\<exists>e. main argv g = Uncaught e"
  by (simp add: main_def count_error_def rules_on_function_object split: sum.split)

text \<open>
  Scenario 1 of the specification, rule by rule on the message text: no rule flags it.
\<close>

lemma scenario_one_rules:
  "header_type (PyStr ''fix: correct off-by-one error'') = Inr (PyBool False)"
  "subject_empty (PyStr ''fix: correct off-by-one error'') = Inr (PyBool False)"
  "subject_length (PyStr ''fix: correct off-by-one error'') = Inr (PyBool False)"
  "subject_case (PyStr ''fix: correct off-by-one error'') = Inr (PyBool False)"
  "subject_full_stop (PyStr ''fix: correct off-by-one error'') = Inr (PyBool False)"
  "body_leading_blank (PyStr ''fix: correct off-by-one error'') = Inr PyNone"
  "body_max_length (PyStr ''fix: correct off-by-one error'') = Inr PyNone"
  by code_simp+

text \<open>The default of \<^verbatim>\<open>commit_msg\<close> itself is the current directory; \<^verbatim>\<open>main\<close> never uses it.\<close>

lemma commit_msg_default_path: "commit_msg g None = commit_msg g (Some ''.'')"
  by (simp add: commit_msg_def)

section \<open>The claims\<close>

text \<open>
  C1. Claimed: a full run on a valid message completes with violation count 0 and exit
  status 0, every rule receiving the message text. Evaluated here on the valid message
  of scenario 1, as \<^verbatim>\<open>git log\<close> prints it: the run passes the function object \<^verbatim>\<open>commit_msg\<close>
  to the third rule, which raises \<^verbatim>\<open>AttributeError\<close>; nothing is counted, no summary is
  printed and the exit status is 1.
\<close>

theorem main_valid_message_uncaught:
  "main [''commitlint.py'', ''.'']
     \<lparr>status_ok = (\<lambda>p. True), log_stdout = (\<lambda>p. ''fix: correct off-by-one error\<newline>'')\<rparr>
     = Uncaught AttributeError
   \<and> exit_status
       (main [''commitlint.py'', ''.'']
          \<lparr>status_ok = (\<lambda>p. True), log_stdout = (\<lambda>p. ''fix: correct off-by-one error\<newline>'')\<rparr>)
     = 1"
  by code_simp

text \<open>
  The claim C2 as stated fails: on the empty message the five header rules raise
  \<^verbatim>\<open>IndexError\<close>, and on a message of blanks the header-type rule and the full-stop rule do.
\<close>

theorem rules_raise_on_blank_counterexample:
  "header_type (PyStr '''') = Inl IndexError
   \<and> subject_empty (PyStr '''') = Inl IndexError
   \<and> subject_length (PyStr '''') = Inl IndexError
   \<and> subject_case (PyStr '''') = Inl IndexError
   \<and> subject_full_stop (PyStr '''') = Inl IndexError
   \<and> header_type (PyStr ''   '') = Inl IndexError
   \<and> subject_full_stop (PyStr ''   '') = Inl IndexError"
  by code_simp

text \<open>
  C2, amended. For every message whose header (the first line, trimmed) is not empty,
  each of the five header rules returns a violation flag and does not raise: this holds
  for a single word without a colon and for a message with nothing after its last
  colon. The two body rules return, for every message, either True or \<^verbatim>\<open>None\<close>.
\<close>

theorem rules_return_on_nonblank_header:
  "(spec_header m \<noteq> [] \<longrightarrow>
      (\<exists>b. header_type (PyStr m) = Inr (PyBool b))
      \<and> (\<exists>b. subject_empty (PyStr m) = Inr (PyBool b))
      \<and> (\<exists>b. subject_length (PyStr m) = Inr (PyBool b))
      \<and> (\<exists>b. subject_case (PyStr m) = Inr (PyBool b))
      \<and> (\<exists>b. subject_full_stop (PyStr m) = Inr (PyBool b)))
   \<and> (body_leading_blank (PyStr m) = Inr (PyBool True) \<or> body_leading_blank (PyStr m) = Inr PyNone)
   \<and> (body_max_length (PyStr m) = Inr (PyBool True) \<or> body_max_length (PyStr m) = Inr PyNone)"
proof (intro conjI impI)
  assume h: "spec_header m \<noteq> []"
  then have ne: "m \<noteq> []" by (rule spec_header_nonempty_message)
  from h have "spec_first_token m \<noteq> None" by (rule first_token_of_header)
  then show "\<exists>b. header_type (PyStr m) = Inr (PyBool b)"
    by (auto simp add: header_type_first_token)
  from ne show "\<exists>b. subject_empty (PyStr m) = Inr (PyBool b)"
    by (simp add: subject_empty_str)
  from ne show "\<exists>b. subject_length (PyStr m) = Inr (PyBool b)"
    by (simp add: subject_length_str)
  from ne show "\<exists>b. subject_case (PyStr m) = Inr (PyBool b)"
    by (simp add: subject_case_str)
  from h show "\<exists>b. subject_full_stop (PyStr m) = Inr (PyBool b)"
    by (simp add: subject_full_stop_str)
next
  show "body_leading_blank (PyStr m) = Inr (PyBool True) \<or> body_leading_blank (PyStr m) = Inr PyNone"
    using body_leading_blank_loop_result [of 0 "str_splitlines m"]
    by (simp add: body_leading_blank_def str_method_def)
next
  show "body_max_length (PyStr m) = Inr (PyBool True) \<or> body_max_length (PyStr m) = Inr PyNone"
    using body_max_length_loop_result [of 0 "str_splitlines m"]
    by (simp add: body_max_length_def str_method_def)
qed

theorem rules_return_on_nonblank_header_witness:
  "spec_header ''word'' \<noteq> []
   \<and> (\<exists>b. header_type (PyStr ''word'') = Inr (PyBool b))
   \<and> (\<exists>b. subject_empty (PyStr ''word'') = Inr (PyBool b))
   \<and> (\<exists>b. subject_length (PyStr ''word'') = Inr (PyBool b))
   \<and> (\<exists>b. subject_case (PyStr ''word'') = Inr (PyBool b))
   \<and> (\<exists>b. subject_full_stop (PyStr ''word'') = Inr (PyBool b))"
proof -
  have h: "spec_header ''word'' \<noteq> []" by code_simp
  show ?thesis
    using h rules_return_on_nonblank_header [of "''word''"] by blast
qed


text \<open>
  The claim C4 as stated fails on a message whose first line is blank: the header has no
  token, hence none that starts with an allowed literal, and yet the rule flags nothing,
  because it reads the token \<^verbatim>\<open>feat:\<close> of the second line.
\<close>

theorem header_type_blank_header_counterexample:
  "header_type (PyStr ''\<newline>feat: add x'') = Inr (PyBool False)
   \<and> spec_header_type_violation ''\<newline>feat: add x''"
  by code_simp

text \<open>
  C4, amended. For every message whose header is not empty, the header-type rule flags a
  violation if and only if the first token of the header does not start with one of the
  eleven literals; a scoped token such as \<^verbatim>\<open>fix(scope):\<close> is flagged.
\<close>

theorem header_type_header_token:
  "(spec_header m \<noteq> [] \<longrightarrow>
      header_type (PyStr m) = Inr (PyBool (spec_header_type_violation m)))
   \<and> header_type (PyStr ''fix(scope): x'') = Inr (PyBool True)"
proof (intro conjI impI)
  assume h: "spec_header m \<noteq> []"
  then have "spec_first_token (spec_header m) = spec_first_token m"
    and "spec_first_token m \<noteq> None"
    by (rule first_token_of_header)+
  then show "header_type (PyStr m) = Inr (PyBool (spec_header_type_violation m))"
    by (auto simp add: header_type_first_token spec_header_type_violation_def)
next
  show "header_type (PyStr ''fix(scope): x'') = Inr (PyBool True)"
    by code_simp
qed

theorem header_type_header_token_witness:
  "spec_header ''foo: correct off-by-one error'' \<noteq> []
   \<and> spec_header_type_violation ''foo: correct off-by-one error''
   \<and> header_type (PyStr ''foo: correct off-by-one error'') = Inr (PyBool True)"
proof -
  have h: "spec_header ''foo: correct off-by-one error'' \<noteq> []" by code_simp
  have v: "spec_header_type_violation ''foo: correct off-by-one error''" by code_simp
  show ?thesis
    using h v header_type_header_token [of "''foo: correct off-by-one error''"] by simp
qed




text \<open>
  C6. For every message with a non-empty first line, the subject-empty rule flags a
  violation if and only if the trimmed header contains no colon or the text after its
  last colon is empty after trimming.
\<close>

theorem subject_empty_iff_spec:
  assumes "spec_first_line m \<noteq> []"
  shows "subject_empty (PyStr m) = Inr (PyBool (spec_subject_empty_violation m))"
proof -
  from assms have "m \<noteq> []" by (auto simp add: spec_first_line_def)
  then show ?thesis
    by (simp add: subject_empty_str spec_subject_empty_violation_def subject_of_stripped_header)
qed

theorem subject_empty_iff_spec_witness:
  "spec_first_line ''fix: '' \<noteq> []
   \<and> spec_subject_empty_violation ''fix: ''
   \<and> subject_empty (PyStr ''fix: '') = Inr (PyBool True)"
proof -
  have h: "spec_first_line ''fix: '' \<noteq> []" by code_simp
  have v: "spec_subject_empty_violation ''fix: ''" by code_simp
  show ?thesis
    using h v subject_empty_iff_spec [OF h] by simp
qed

text \<open>
  C7. Claimed: with the path argument omitted the run uses the current directory.
  Evaluated here with \<^verbatim>\<open>sys.argv\<close> holding the program name only: \<^verbatim>\<open>sys.argv[1]\<close> raises
  \<^verbatim>\<open>IndexError\<close> before any message is retrieved, whatever the repository holds.
\<close>

theorem main_without_path_uncaught:
  "main [prog] g = Uncaught IndexError \<and> exit_status (main [prog] g) = 1"
  by (simp add: main_def getitem_def)

text \<open>
  C8. For every message of exactly one line, the body-leading-blank rule and the
  body-max-length rule both return \<^verbatim>\<open>None\<close>, which is false: neither raises and neither
  adds to the violation count.
\<close>

theorem body_rules_one_line:
  assumes "length (str_splitlines m) = 1"
  shows "body_leading_blank (PyStr m) = Inr PyNone
       \<and> body_max_length (PyStr m) = Inr PyNone
       \<and> count_error (body_leading_blank (PyStr m)) n = Inr n
       \<and> count_error (body_max_length (PyStr m)) n = Inr n"
proof -
  from assms obtain l where "str_splitlines m = [l]"
    by (cases "str_splitlines m") auto
  then show ?thesis
    by (simp add: body_leading_blank_def body_max_length_def str_method_def count_error_def)
qed

theorem body_rules_one_line_witness:
  "length (str_splitlines ''fix: correct off-by-one error'') = 1
   \<and> body_leading_blank (PyStr ''fix: correct off-by-one error'') = Inr PyNone
   \<and> body_max_length (PyStr ''fix: correct off-by-one error'') = Inr PyNone
   \<and> count_error (body_leading_blank (PyStr ''fix: correct off-by-one error'')) 0 = Inr 0
   \<and> count_error (body_max_length (PyStr ''fix: correct off-by-one error'')) 0 = Inr 0"
proof -
  have h: "length (str_splitlines ''fix: correct off-by-one error'') = 1"
    by code_simp
  show ?thesis
    using h body_rules_one_line [OF h, of 0] by blast
qed

text \<open>
  C9. The result of the header-type rule is determined by the first token of the whole
  message text: two messages with the same first token (or both without one) get the
  same result, which is \<^verbatim>\<open>IndexError\<close> without a token and otherwise the prefix test on
  that token. So for the message with a blank first line and \<^verbatim>\<open>fix: x\<close> on its second
  line, the token tested is \<^verbatim>\<open>fix:\<close> and the rule flags nothing.
\<close>

theorem header_type_whole_text_token:
  "(spec_first_token m = spec_first_token m' \<longrightarrow> header_type (PyStr m) = header_type (PyStr m'))
   \<and> header_type (PyStr m)
       = (case spec_first_token m of
            None \<Rightarrow> Inl IndexError
          | Some t \<Rightarrow> Inr (PyBool (\<not> startswith_any t conventional_commit_type)))
   \<and> spec_first_line ''\<newline>fix: x'' = []
   \<and> spec_first_token ''\<newline>fix: x'' = Some ''fix:''
   \<and> header_type (PyStr ''\<newline>fix: x'') = Inr (PyBool False)"
proof (intro conjI impI)
  assume "spec_first_token m = spec_first_token m'"
  then show "header_type (PyStr m) = header_type (PyStr m')"
    by (simp add: header_type_first_token)
next
  show "header_type (PyStr m)
       = (case spec_first_token m of
            None \<Rightarrow> Inl IndexError
          | Some t \<Rightarrow> Inr (PyBool (\<not> startswith_any t conventional_commit_type)))"
    by (rule header_type_first_token)
next
  show "spec_first_line ''\<newline>fix: x'' = []" by code_simp
next
  show "spec_first_token ''\<newline>fix: x'' = Some ''fix:''" by code_simp
next
  show "header_type (PyStr ''\<newline>fix: x'') = Inr (PyBool False)" by code_simp
qed

theorem header_type_whole_text_token_witness:
  "spec_first_token ''fix: a'' = spec_first_token ''  \<newline>fix: b\<newline>c''
   \<and> header_type (PyStr ''fix: a'') = header_type (PyStr ''  \<newline>fix: b\<newline>c'')"
proof -
  have h: "spec_first_token ''fix: a'' = spec_first_token ''  \<newline>fix: b\<newline>c''"
    by code_simp
  show ?thesis
    using h header_type_whole_text_token [of "''fix: a''" "''  \<newline>fix: b\<newline>c''"] by blast
qed



end
